theory Spec2Isabelle
  imports
    Main
    "HOL-Library.Sublist"
    "HOL-Library.Char_ord"
    "HOL-Library.List_Lexorder"
    "HOL-Library.Multiset"
begin

section \<open>Strings and the library calls the annotator makes\<close>

text \<open>
  A Go string is a sequence of bytes, here a \<^typ>\<open>string\<close>. Comparison with \<open><\<close> is
  byte-wise lexicographic, which is the order of \<open>List_Lexorder\<close> over \<open>Char_ord\<close>.
\<close>

abbreviation nl :: string where
  "nl \<equiv> [CHR 0x0A]"

definition HasPrefix :: "string \<Rightarrow> string \<Rightarrow> bool" where
  "HasPrefix s p = prefix p s"

definition TrimPrefix :: "string \<Rightarrow> string \<Rightarrow> string" where
  "TrimPrefix s p = (if HasPrefix s p then drop (length p) s else s)"

text \<open>
  \<open>strings.TrimSpace\<close> removes leading and trailing white space as \<open>unicode.IsSpace\<close>
  defines it, one UTF-8 encoded code point at a time: the six ASCII bytes, and the
  encodings of U+0085, U+00A0, U+1680, U+2000 to U+200A, U+2028, U+2029, U+202F, U+205F
  and U+3000.
\<close>

definition asciiSpace :: "char \<Rightarrow> bool" where
  "asciiSpace c = (c \<in> set [CHR 0x09, CHR 0x0A, CHR 0x0B, CHR 0x0C, CHR 0x0D, CHR 0x20])"

definition spaceRunes :: "string list" where
  "spaceRunes =
    [[CHR 0xC2, CHR 0x85], [CHR 0xC2, CHR 0xA0], [CHR 0xE1, CHR 0x9A, CHR 0x80],
     [CHR 0xE2, CHR 0x80, CHR 0x80], [CHR 0xE2, CHR 0x80, CHR 0x81],
     [CHR 0xE2, CHR 0x80, CHR 0x82], [CHR 0xE2, CHR 0x80, CHR 0x83],
     [CHR 0xE2, CHR 0x80, CHR 0x84], [CHR 0xE2, CHR 0x80, CHR 0x85],
     [CHR 0xE2, CHR 0x80, CHR 0x86], [CHR 0xE2, CHR 0x80, CHR 0x87],
     [CHR 0xE2, CHR 0x80, CHR 0x88], [CHR 0xE2, CHR 0x80, CHR 0x89],
     [CHR 0xE2, CHR 0x80, CHR 0x8A], [CHR 0xE2, CHR 0x80, CHR 0xA8],
     [CHR 0xE2, CHR 0x80, CHR 0xA9], [CHR 0xE2, CHR 0x80, CHR 0xAF],
     [CHR 0xE2, CHR 0x81, CHR 0x9F], [CHR 0xE3, CHR 0x80, CHR 0x80]]"

text \<open>The number of bytes of the white-space code point a string starts with, 0 if none.\<close>

definition leadingSpace :: "string \<Rightarrow> nat" where
  "leadingSpace s =
    (case s of
       [] \<Rightarrow> 0
     | c # _ \<Rightarrow>
         if asciiSpace c then 1
         else (case filter (\<lambda>r. prefix r s) spaceRunes of [] \<Rightarrow> 0 | r # _ \<Rightarrow> length r))"

text \<open>The same for the code point a string ends with.\<close>

definition trailingSpace :: "string \<Rightarrow> nat" where
  "trailingSpace s =
    (if s = [] then 0
     else if asciiSpace (last s) then 1
     else (case filter (\<lambda>r. suffix r s) spaceRunes of [] \<Rightarrow> 0 | r # _ \<Rightarrow> length r))"

function trimLeftSpace :: "string \<Rightarrow> string" where
  "trimLeftSpace s = (if leadingSpace s = 0 then s else trimLeftSpace (drop (leadingSpace s) s))"
  by pat_completeness auto
termination
proof (relation "measure length")
  show "wf (measure length)" by simp
next
  fix s :: string
  assume "leadingSpace s \<noteq> 0"
  moreover have "s \<noteq> []" using \<open>leadingSpace s \<noteq> 0\<close> by (auto simp: leadingSpace_def)
  ultimately show "(drop (leadingSpace s) s, s) \<in> measure length" by simp
qed

function trimRightSpace :: "string \<Rightarrow> string" where
  "trimRightSpace s =
    (if trailingSpace s = 0 then s else trimRightSpace (take (length s - trailingSpace s) s))"
  by pat_completeness auto
termination
proof (relation "measure length")
  show "wf (measure length)" by simp
next
  fix s :: string
  assume "trailingSpace s \<noteq> 0"
  moreover have "s \<noteq> []" using \<open>trailingSpace s \<noteq> 0\<close> by (auto simp: trailingSpace_def)
  ultimately show "(take (length s - trailingSpace s) s, s) \<in> measure length" by simp
qed

declare trimLeftSpace.simps [simp del] trimRightSpace.simps [simp del]

definition TrimSpace :: "string \<Rightarrow> string" where
  "TrimSpace s = trimRightSpace (trimLeftSpace s)"

text \<open>
  \<open>strings.SplitN(s, ":", 2)\<close>: the whole string when it has no colon, else the text
  before the first colon and the text after it.
\<close>

definition SplitN2 :: "string \<Rightarrow> string list" where
  "SplitN2 s =
    (if CHR '':'' \<in> set s
     then [takeWhile (\<lambda>c. c \<noteq> CHR '':'') s, drop 1 (dropWhile (\<lambda>c. c \<noteq> CHR '':'') s)]
     else [s])"

text \<open>
  The output is a \<open>bytes.Buffer\<close>: a byte string that only grows. The loop
  \<open>for _, line := range lines { out.WriteString(line + "\n") }\<close> occurs three times in
  the source; \<open>WriteLines\<close> is that loop.
\<close>

type_synonym buffer = string

definition WriteString :: "buffer \<Rightarrow> string \<Rightarrow> buffer" where
  "WriteString out s = out @ s"

fun WriteLines :: "string list \<Rightarrow> buffer \<Rightarrow> buffer" where
  "WriteLines [] out = out"
| "WriteLines (line # rest) out = WriteLines rest (WriteString out (line @ nl))"

section \<open>The annotator\<close>

record manifestAnnotator =
  FileName :: string
  Annotation :: string
  SkipAnnotation :: string
  Value :: string
  Kind :: string
  GroupVersion :: string
  Name :: string
  Namespace :: string

record annotation =
  key :: string
  lines :: "string list"

type_synonym annotations = "annotation list"

subsection \<open>Annotation entries\<close>

definition Less :: "annotation \<Rightarrow> annotation \<Rightarrow> bool" where
  "Less x y = (key x < key y)"

text \<open>
  \<open>sort.Sort\<close> orders the slice by \<open>Less\<close>, which compares keys only. On a short slice
  (up to six elements in every version of the library, up to twelve in the current one)
  the library runs an insertion sort: each element in turn is swapped with its left
  neighbour as long as it is \<open>Less\<close> than that neighbour. \<open>Sort\<close> is that insertion
  sort at every length. On longer slices the library runs other algorithms, which give
  the same order of keys but may order entries with equal keys differently: there
  \<open>Sort\<close> stands for the library only up to the order of entries with equal keys, and
  nothing stated below for all blocks depends on that order. \<open>sink\<close> moves one element
  into the sorted part, which it takes in reverse, the nearest neighbour first.
\<close>

fun sink :: "annotation \<Rightarrow> annotations \<Rightarrow> annotations" where
  "sink x [] = [x]"
| "sink x (y # ys) = (if Less x y then y # sink x ys else x # y # ys)"

fun insertionSort :: "annotations \<Rightarrow> annotations \<Rightarrow> annotations" where
  "insertionSort sorted_part [] = rev sorted_part"
| "insertionSort sorted_part (x # xs) = insertionSort (sink x sorted_part) xs"

definition Sort :: "annotations \<Rightarrow> annotations" where
  "Sort as = insertionSort [] as"

fun Includes :: "annotations \<Rightarrow> string \<Rightarrow> bool" where
  "Includes [] k = False"
| "Includes (aa # as) k = (if key aa = k then True else Includes as k)"

fun Write :: "annotations \<Rightarrow> buffer \<Rightarrow> buffer" where
  "Write [] out = out"
| "Write (aa # as) out = Write as (WriteLines (lines aa) out)"

definition newAnnotation :: "string \<Rightarrow> string \<Rightarrow> annotation" where
  "newAnnotation k v = \<lparr>key = k, lines = [''    '' @ k @ '': '' @ v]\<rparr>"

definition Add :: "annotations \<Rightarrow> string \<Rightarrow> string \<Rightarrow> annotations" where
  "Add as k v = as @ [newAnnotation k v]"

text \<open>
  The loop of \<open>parseAnnotations\<close>, with \<open>currentAnnotation\<close> (a pointer that may be nil)
  as an option and \<open>result\<close> as the entries closed so far.
\<close>

fun parseAnnotations_loop ::
  "string list \<Rightarrow> annotation option \<Rightarrow> annotations \<Rightarrow> annotations" where
  "parseAnnotations_loop [] currentAnnotation result =
    (case currentAnnotation of None \<Rightarrow> result | Some c \<Rightarrow> result @ [c])"
| "parseAnnotations_loop (line # rest) currentAnnotation result =
    (if HasPrefix line ''      '' then
       (case currentAnnotation of
          Some c \<Rightarrow> parseAnnotations_loop rest (Some (c\<lparr>lines := lines c @ [line]\<rparr>)) result
        | None \<Rightarrow> parseAnnotations_loop rest None result)
     else
       (let parts = SplitN2 line in
        if length parts < 2 then parseAnnotations_loop rest currentAnnotation result
        else
          parseAnnotations_loop rest
            (Some \<lparr>key = TrimSpace (parts ! 0), lines = [line]\<rparr>)
            (case currentAnnotation of None \<Rightarrow> result | Some c \<Rightarrow> result @ [c])))"

definition parseAnnotations :: "string list \<Rightarrow> annotations" where
  "parseAnnotations ls = parseAnnotations_loop ls None []"

definition processAnnotations ::
  "manifestAnnotator \<Rightarrow> string list \<Rightarrow> buffer \<Rightarrow> bool \<times> buffer" where
  "processAnnotations a ls out =
    (let annotations = parseAnnotations ls in
     if \<not> Includes annotations (Annotation a) \<and> \<not> Includes annotations (SkipAnnotation a)
     then (True, Write (Sort (Add annotations (Annotation a) (Value a))) out)
     else (False, Write annotations out))"

subsection \<open>The metadata block\<close>

fun processMetadata_names :: "string list \<Rightarrow> string \<Rightarrow> string \<Rightarrow> string \<times> string" where
  "processMetadata_names [] name namespace = (name, namespace)"
| "processMetadata_names (line # rest) name namespace =
    (let name1 =
           (if HasPrefix line ''  name:''
            then TrimSpace (TrimPrefix line ''  name:'') else name);
         namespace1 =
           (if HasPrefix line ''  namespace:''
            then TrimSpace (TrimPrefix line ''  namespace:'') else namespace)
     in processMetadata_names rest name1 namespace1)"

definition skipProcessing ::
  "manifestAnnotator \<Rightarrow> string \<Rightarrow> string \<Rightarrow> string \<Rightarrow> string \<Rightarrow> bool" where
  "skipProcessing a kind groupVersion name namespace =
    ((length (Kind a) > 0 \<and> Kind a \<noteq> kind) \<or>
     (length (GroupVersion a) > 0 \<and> GroupVersion a \<noteq> groupVersion) \<or>
     (length (Name a) > 0 \<and> Name a \<noteq> name) \<or>
     (length (Namespace a) > 0 \<and> Namespace a \<noteq> namespace))"

text \<open>
  The second loop of \<open>processMetadata\<close>. Its state is \<open>annotationLines\<close>,
  \<open>inAnnotations\<close>, \<open>annotationsProcessed\<close>, \<open>changed\<close> and the buffer.
\<close>

fun processMetadata_loop ::
  "manifestAnnotator \<Rightarrow> string list \<Rightarrow> string list \<Rightarrow> bool \<Rightarrow> bool \<Rightarrow> bool \<Rightarrow> buffer
    \<Rightarrow> string list \<times> bool \<times> bool \<times> buffer" where
  "processMetadata_loop a [] annotationLines inAnnotations annotationsProcessed changed out =
    (annotationLines, annotationsProcessed, changed, out)"
| "processMetadata_loop a (line # rest) annotationLines inAnnotations annotationsProcessed
      changed out =
    (if inAnnotations \<and> HasPrefix line ''    '' then
       processMetadata_loop a rest (annotationLines @ [line]) inAnnotations
         annotationsProcessed changed out
     else
       (let (changed1, out1) =
              (if inAnnotations then processAnnotations a annotationLines out
               else (changed, out));
            annotationsProcessed1 = (if inAnnotations then True else annotationsProcessed);
            inAnnotations1 = (if HasPrefix line ''  annotations:'' then True else False)
        in processMetadata_loop a rest annotationLines inAnnotations1 annotationsProcessed1
             changed1 (WriteString out1 (line @ nl))))"

definition processMetadata ::
  "manifestAnnotator \<Rightarrow> string list \<Rightarrow> string \<Rightarrow> string \<Rightarrow> buffer \<Rightarrow> bool \<times> buffer" where
  "processMetadata a ls kind groupVersion out =
    (let (name, namespace) = processMetadata_names ls [] [] in
     if skipProcessing a kind groupVersion name namespace then (False, WriteLines ls out)
     else
       (let (annotationLines, annotationsProcessed, changed, out1) =
              processMetadata_loop a ls [] False False False out;
            (changed2, out2) =
              (if length annotationLines = 0
               then (True, WriteString out1 (''  annotations:'' @ nl))
               else (changed, out1))
        in if \<not> annotationsProcessed then processAnnotations a annotationLines out2
           else (changed2, out2)))"

subsection \<open>One manifest\<close>

fun processManifest_header :: "string list \<Rightarrow> string \<Rightarrow> string \<Rightarrow> string \<times> string" where
  "processManifest_header [] kind groupVersion = (kind, groupVersion)"
| "processManifest_header (line # rest) kind groupVersion =
    (if HasPrefix line ''kind:''
     then processManifest_header rest (TrimSpace (TrimPrefix line ''kind:'')) groupVersion
     else if HasPrefix line ''apiVersion:''
     then processManifest_header rest kind (TrimSpace (TrimPrefix line ''apiVersion:''))
     else processManifest_header rest kind groupVersion)"

text \<open>
  The second loop of \<open>processManifest\<close>, with the test after the loop as its last step.
  Its state is \<open>inMetadata\<close>, \<open>metadataLines\<close>, \<open>metadataProcessed\<close>, \<open>changed\<close> and the
  buffer.
\<close>

fun processManifest_loop ::
  "manifestAnnotator \<Rightarrow> string \<Rightarrow> string \<Rightarrow> string list \<Rightarrow> bool \<Rightarrow> string list \<Rightarrow> bool
    \<Rightarrow> bool \<Rightarrow> buffer \<Rightarrow> bool \<times> buffer" where
  "processManifest_loop a kind groupVersion [] inMetadata metadataLines metadataProcessed
      changed out =
    (if \<not> metadataProcessed \<and> length metadataLines > 0
     then processMetadata a metadataLines kind groupVersion out
     else (changed, out))"
| "processManifest_loop a kind groupVersion (line # rest) inMetadata metadataLines
      metadataProcessed changed out =
    (if inMetadata \<and> HasPrefix line ''  '' then
       processManifest_loop a kind groupVersion rest inMetadata (metadataLines @ [line])
         metadataProcessed changed out
     else
       (let (changed1, out1) =
              (if inMetadata then processMetadata a metadataLines kind groupVersion out
               else (changed, out));
            metadataProcessed1 = (if inMetadata then True else metadataProcessed);
            inMetadata1 = (if HasPrefix line ''metadata:'' then True else False)
        in processManifest_loop a kind groupVersion rest inMetadata1 metadataLines
             metadataProcessed1 changed1 (WriteString out1 (line @ nl))))"

definition processManifest ::
  "manifestAnnotator \<Rightarrow> string list \<Rightarrow> buffer \<Rightarrow> bool \<times> buffer" where
  "processManifest a ls out =
    (let (kind, groupVersion) = processManifest_header ls [] [] in
     processManifest_loop a kind groupVersion ls False [] False False out)"

subsection \<open>The file and the run over it\<close>

datatype error = OpenError | ErrTooLong | WriteError

record fileState =
  content :: string
  writable :: bool

type_synonym filesystem = "string \<rightharpoonup> fileState"

text \<open>
  \<open>bufio.Scanner\<close> with its default split function: a line ends at a line feed, one
  carriage return before it is dropped, a last line without line feed counts when it is
  not empty, and a line of 65536 bytes or more is the error \<open>bufio.ErrTooLong\<close>.
\<close>

definition dropCR :: "string \<Rightarrow> string" where
  "dropCR s = (if s \<noteq> [] \<and> last s = CHR 0x0D then butlast s else s)"

fun ScanLines :: "string \<Rightarrow> string \<Rightarrow> string list \<Rightarrow> error + string list" where
  "ScanLines [] token ls =
    (if token = [] then Inr ls
     else if int (length token) \<ge> 65536 then Inl ErrTooLong
     else Inr (ls @ [dropCR token]))"
| "ScanLines (c # data) token ls =
    (if c = CHR 0x0A then
       (if int (length token) \<ge> 65536 then Inl ErrTooLong
        else ScanLines data [] (ls @ [dropCR token]))
     else ScanLines data (token @ [c]) ls)"

definition readLines :: "filesystem \<Rightarrow> string \<Rightarrow> error + string list" where
  "readLines fs path =
    (case fs path of None \<Rightarrow> Inl OpenError | Some f \<Rightarrow> ScanLines (content f) [] [])"

text \<open>\<open>ioutil.WriteFile\<close> replaces the content of the file, or creates the file.\<close>

definition WriteFile :: "filesystem \<Rightarrow> string \<Rightarrow> string \<Rightarrow> error + filesystem" where
  "WriteFile fs path data =
    (case fs path of
       None \<Rightarrow> Inr (fs(path \<mapsto> \<lparr>content = data, writable = True\<rparr>))
     | Some f \<Rightarrow>
         if writable f then Inr (fs(path \<mapsto> f\<lparr>content := data\<rparr>)) else Inl WriteError)"

text \<open>The loop of \<open>Run\<close>; the value of \<open>processManifest\<close> is dropped inside it.\<close>

fun Run_loop ::
  "manifestAnnotator \<Rightarrow> string list \<Rightarrow> string list \<Rightarrow> buffer \<Rightarrow> string list \<times> buffer" where
  "Run_loop a [] currentManifest output = (currentManifest, output)"
| "Run_loop a (line # rest) currentManifest output =
    (if HasPrefix line ''---'' then
       (let (_, output1) = processManifest a currentManifest output
        in Run_loop a rest [] (WriteString output1 (line @ nl)))
     else Run_loop a rest (currentManifest @ [line]) output)"

text \<open>
  The buffer \<open>Run\<close> has assembled when it decides whether to write, and the flag it
  decides by: the value of the last call of \<open>processManifest\<close>.
\<close>

definition Run_output :: "manifestAnnotator \<Rightarrow> string list \<Rightarrow> bool \<times> buffer" where
  "Run_output a ls =
    (let (currentManifest, output) = Run_loop a ls [] []
     in processManifest a currentManifest output)"

text \<open>\<open>Run\<close> returns its error, if any, and the file system it leaves.\<close>

definition Run :: "manifestAnnotator \<Rightarrow> filesystem \<Rightarrow> error option \<times> filesystem" where
  "Run a fs =
    (case readLines fs (FileName a) of
       Inl err \<Rightarrow> (Some err, fs)
     | Inr ls \<Rightarrow>
         (let (changed, output) = Run_output a ls
          in if changed then
               (case WriteFile fs (FileName a) output of
                  Inl err \<Rightarrow> (Some err, fs)
                | Inr fs1 \<Rightarrow> (None, fs1))
             else (None, fs)))"

subsection \<open>The other revisions of \<open>processAnnotations\<close>\<close>

text \<open>
  The sources hold two more revisions of \<open>processAnnotations\<close>, which work on the lines
  of the block and have no entries. Both write the new value with the verb \<open>%q\<close>, the
  quoting of the library, which is their parameter \<open>quote\<close> here.

  The first (\<open>annotator.go\<close>, second part) replaces the value of the key when it differs;
  its message on standard output is not modelled. \<open>strings.Trim(s, "\"")\<close> removes the
  double quotes at both ends.
\<close>

definition Trim_quotes :: "string \<Rightarrow> string" where
  "Trim_quotes s =
    rev (dropWhile (\<lambda>c. c = CHR 0x22) (rev (dropWhile (\<lambda>c. c = CHR 0x22) s)))"

fun processAnnotations_reconcile_loop ::
  "(string \<Rightarrow> string) \<Rightarrow> manifestAnnotator \<Rightarrow> string list \<Rightarrow> bool \<Rightarrow> bool \<Rightarrow> buffer
    \<Rightarrow> bool \<times> bool \<times> buffer" where
  "processAnnotations_reconcile_loop quote a [] changed found out = (changed, found, out)"
| "processAnnotations_reconcile_loop quote a (line # rest) changed found out =
    (let parts = SplitN2 line in
     if length parts \<noteq> 2 then
       processAnnotations_reconcile_loop quote a rest changed found
         (WriteString out (line @ nl))
     else
       (let k = TrimSpace (parts ! 0);
            v = Trim_quotes (TrimSpace (parts ! 1))
        in if k = Annotation a \<and> v \<noteq> Value a then
             processAnnotations_reconcile_loop quote a rest True True
               (WriteString out (''    '' @ Annotation a @ '': '' @ quote (Value a) @ nl))
           else
             processAnnotations_reconcile_loop quote a rest changed
               (if k = Annotation a then True else found)
               (WriteString out (line @ nl))))"

definition processAnnotations_reconcile ::
  "(string \<Rightarrow> string) \<Rightarrow> manifestAnnotator \<Rightarrow> string list \<Rightarrow> buffer \<Rightarrow> bool \<times> buffer" where
  "processAnnotations_reconcile quote a ls out =
    (let (changed, found, out1) =
           processAnnotations_reconcile_loop quote a ls False False out
     in if \<not> found
        then (True, WriteString out1 (''    '' @ Annotation a @ '': '' @ quote (Value a) @ nl))
        else (changed, out1))"

text \<open>
  The second (\<open>part_000\<close>) has the skip key and sorts the lines. Its \<open>Less\<close> compares the
  text before the first colon and, when that is equal, the text after it; reading the
  text after the colon of a line without colon is an index out of range, a panic, which
  is \<open>None\<close> here. The sort is the insertion sort of the library on short slices, as
  above.
\<close>

definition Less_lines :: "string \<Rightarrow> string \<Rightarrow> bool option" where
  "Less_lines li lj =
    (let partsI = SplitN2 li; partsJ = SplitN2 lj in
     if partsI ! 0 = partsJ ! 0 then
       (if length partsI < 2 \<or> length partsJ < 2 then None
        else Some (partsI ! 1 < partsJ ! 1))
     else Some (partsI ! 0 < partsJ ! 0))"

fun sink_lines :: "string \<Rightarrow> string list \<Rightarrow> string list option" where
  "sink_lines x [] = Some [x]"
| "sink_lines x (y # ys) =
    (case Less_lines x y of
       None \<Rightarrow> None
     | Some True \<Rightarrow> map_option ((#) y) (sink_lines x ys)
     | Some False \<Rightarrow> Some (x # y # ys))"

fun insertionSort_lines :: "string list \<Rightarrow> string list \<Rightarrow> string list option" where
  "insertionSort_lines sorted_part [] = Some (rev sorted_part)"
| "insertionSort_lines sorted_part (x # xs) =
    (case sink_lines x sorted_part of
       None \<Rightarrow> None
     | Some sorted_part1 \<Rightarrow> insertionSort_lines sorted_part1 xs)"

definition sortAnnotations :: "string list \<Rightarrow> string list option" where
  "sortAnnotations ls = insertionSort_lines [] ls"

fun includesAnnotation :: "string list \<Rightarrow> string \<Rightarrow> bool" where
  "includesAnnotation [] annotation = False"
| "includesAnnotation (line # rest) annotation =
    (if TrimSpace (SplitN2 line ! 0) = annotation then True
     else includesAnnotation rest annotation)"

definition processAnnotations_lines ::
  "(string \<Rightarrow> string) \<Rightarrow> manifestAnnotator \<Rightarrow> string list \<Rightarrow> buffer
    \<Rightarrow> (bool \<times> buffer) option" where
  "processAnnotations_lines quote a ls out =
    (let shouldSkip = includesAnnotation ls (SkipAnnotation a);
         changed = (\<not> shouldSkip \<and> \<not> includesAnnotation ls (Annotation a));
         ls1 = (if changed then ls @ [''    '' @ Annotation a @ '': '' @ quote (Value a)]
                else ls)
     in if changed then
          (case sortAnnotations ls1 of
             None \<Rightarrow> None
           | Some ls2 \<Rightarrow> Some (changed, WriteLines ls2 out))
        else Some (changed, WriteLines ls1 out))"

section \<open>Vocabulary of the statements\<close>

text \<open>The bytes that writing each line of \<open>ls\<close> with a line feed after it produces.\<close>

abbreviation terminated :: "string list \<Rightarrow> string" where
  "terminated ls \<equiv> concat (map (\<lambda>l. l @ nl) ls)"

text \<open>
  A document \<open>pre @ m # body @ post\<close> with one metadata block: \<open>m\<close> is the only line that
  begins with \<open>metadata:\<close>, \<open>body\<close> are the lines indented by two spaces that follow it, and
  \<open>post\<close>, if any, begins with a line that is not indented.
\<close>

definition singleMetadataBlock ::
  "string list \<Rightarrow> string \<Rightarrow> string list \<Rightarrow> string list \<Rightarrow> bool" where
  "singleMetadataBlock pre m body post =
    (list_all (\<lambda>l. \<not> HasPrefix l ''metadata:'') pre \<and>
     HasPrefix m ''metadata:'' \<and>
     list_all (\<lambda>l. HasPrefix l ''  '') body \<and>
     (case post of [] \<Rightarrow> True | p # _ \<Rightarrow> \<not> HasPrefix p ''  '') \<and>
     list_all (\<lambda>l. \<not> HasPrefix l ''metadata:'') post)"

text \<open>
  An annotation block every line of which belongs to an entry: the first line starts an
  entry, and every line either continues one (six spaces) or has a colon.
\<close>

definition entryLines :: "string list \<Rightarrow> bool" where
  "entryLines ls =
    ((case ls of [] \<Rightarrow> True | l # _ \<Rightarrow> \<not> HasPrefix l ''      '') \<and>
     list_all (\<lambda>l. HasPrefix l ''      '' \<or> \<not> length (SplitN2 l) < 2) ls)"

text \<open>
  The lines of a metadata block \<open>apre @ ann # blk @ apost\<close> with one annotation block:
  \<open>ann\<close> is the only line that begins with \<open>  annotations:\<close>, \<open>blk\<close> are the lines indented
  by four spaces that follow it, and \<open>apost\<close>, if any, begins with a line that is not.
\<close>

definition singleAnnotationsBlock ::
  "string list \<Rightarrow> string \<Rightarrow> string list \<Rightarrow> string list \<Rightarrow> bool" where
  "singleAnnotationsBlock apre ann blk apost =
    (list_all (\<lambda>l. \<not> HasPrefix l ''  annotations:'') apre \<and>
     HasPrefix ann ''  annotations:'' \<and>
     list_all (\<lambda>l. HasPrefix l ''    '') blk \<and>
     (case apost of [] \<Rightarrow> True | p # _ \<Rightarrow> \<not> HasPrefix p ''    '') \<and>
     list_all (\<lambda>l. \<not> HasPrefix l ''  annotations:'') apost)"

text \<open>
  The filters in the words of the specification: every filter that is not empty equals
  the value read from the document.
\<close>

definition matchesFilters ::
  "manifestAnnotator \<Rightarrow> string \<Rightarrow> string \<Rightarrow> string \<Rightarrow> string \<Rightarrow> bool" where
  "matchesFilters a kind groupVersion name namespace =
    ((Kind a = [] \<or> Kind a = kind) \<and>
     (GroupVersion a = [] \<or> GroupVersion a = groupVersion) \<and>
     (Name a = [] \<or> Name a = name) \<and>
     (Namespace a = [] \<or> Namespace a = namespace))"

text \<open>The line of the new entry, without its line feed.\<close>

abbreviation newEntry :: "manifestAnnotator \<Rightarrow> string" where
  "newEntry a \<equiv> ''    '' @ Annotation a @ '': '' @ Value a"






text \<open>The arguments of the examples: annotation \<open>team\<close> with value \<open>platform\<close>, no filter.\<close>

definition exampleAnnotator :: manifestAnnotator where
  "exampleAnnotator =
    \<lparr>FileName = ''manifest.yaml'', Annotation = ''team'', SkipAnnotation = [],
     Value = ''platform'', Kind = [], GroupVersion = [], Name = [], Namespace = []\<rparr>"

definition podDocument :: "string list" where
  "podDocument = [''apiVersion: v1'', ''kind: Pod'', ''metadata:'', ''  name: web'', ''spec: {}'']"

definition annotatedDocument :: "string list" where
  "annotatedDocument =
    [''kind: Pod'', ''metadata:'', ''  name: web'', ''  annotations:'', ''    team: platform'']"

definition namespacedDocument :: "string list" where
  "namespacedDocument =
    [''kind: Pod'', ''metadata:'', ''  name: web'', ''  namespace: prod'', ''  annotations:'',
     ''    app: web'', ''spec: {}'']"

text \<open>A file system with the one file \<open>manifest.yaml\<close>, and the content of that file.\<close>

definition singleFile :: "string \<Rightarrow> filesystem" where
  "singleFile c = [''manifest.yaml'' \<mapsto> \<lparr>content = c, writable = True\<rparr>]"

definition contentOf :: "filesystem \<Rightarrow> string option" where
  "contentOf fs = map_option content (fs ''manifest.yaml'')"

section \<open>The buffer only grows\<close>

lemma WriteLines_eq: "WriteLines ls out = out @ terminated ls"
  by (induction ls arbitrary: out) (simp_all add: WriteString_def)

lemma Write_eq: "Write as out = out @ terminated (concat (map lines as))"
  by (induction as arbitrary: out) (simp_all add: WriteLines_eq)

lemma processAnnotations_prepend:
  "processAnnotations a ls (p @ out) =
    (case processAnnotations a ls out of (c, out1) \<Rightarrow> (c, p @ out1))"
  by (simp add: processAnnotations_def Let_def Write_eq)

lemma processMetadata_loop_prepend:
  "processMetadata_loop a ls al inA ap ch (p @ out) =
    (case processMetadata_loop a ls al inA ap ch out of
       (al1, ap1, ch1, out1) \<Rightarrow> (al1, ap1, ch1, p @ out1))"
  by (induction ls arbitrary: al inA ap ch out)
     (simp_all add: processAnnotations_prepend WriteString_def split: prod.splits)

lemma processMetadata_prepend:
  "processMetadata a ls k g (p @ out) =
    (case processMetadata a ls k g out of (c, out1) \<Rightarrow> (c, p @ out1))"
  by (simp add: processMetadata_def processMetadata_loop_prepend processAnnotations_prepend
        WriteLines_eq WriteString_def split: prod.splits)



section \<open>The scan of one manifest\<close>

lemma processManifest_loop_outside:
  "\<forall>l\<in>set ls. \<not> HasPrefix l ''metadata:'' \<Longrightarrow>
   processManifest_loop a k g (ls @ rest) False ml mp ch out =
   processManifest_loop a k g rest False ml mp ch (out @ terminated ls)"
  by (induction ls arbitrary: out) (simp_all add: WriteString_def)

lemma processManifest_loop_inside:
  "\<forall>l\<in>set body. HasPrefix l ''  '' \<Longrightarrow>
   processManifest_loop a k g (body @ rest) True ml mp ch out =
   processManifest_loop a k g rest True (ml @ body) mp ch out"
  by (induction body arbitrary: ml) simp_all

lemma processManifest_loop_block:
  assumes "singleMetadataBlock pre m body post"
  shows "processManifest_loop a k g (pre @ m # body @ post) False [] False False out =
    (if body = [] \<and> post = [] then (False, out @ terminated (pre @ [m]))
     else (case processMetadata a body k g (out @ terminated (pre @ [m])) of
             (c, out1) \<Rightarrow> (c, out1 @ terminated post)))"
proof -
  from assms have pre: "\<forall>l\<in>set pre. \<not> HasPrefix l ''metadata:''"
    and m: "HasPrefix m ''metadata:''"
    and body: "\<forall>l\<in>set body. HasPrefix l ''  ''"
    and post: "\<forall>l\<in>set post. \<not> HasPrefix l ''metadata:''"
    and hd: "case post of [] \<Rightarrow> True | p # _ \<Rightarrow> \<not> HasPrefix p ''  ''"
    by (simp_all add: singleMetadataBlock_def list_all_iff)
  have "processManifest_loop a k g (pre @ m # body @ post) False [] False False out =
        processManifest_loop a k g (m # body @ post) False [] False False (out @ terminated pre)"
    using pre by (rule processManifest_loop_outside)
  also have "\<dots> = processManifest_loop a k g (body @ post) True [] False False
                    (out @ terminated (pre @ [m]))"
    using m by (simp add: WriteString_def)
  also have "\<dots> = processManifest_loop a k g post True body False False
                    (out @ terminated (pre @ [m]))"
    using processManifest_loop_inside [OF body, of a k g post "[]"] by simp
  also have "\<dots> =
    (if body = [] \<and> post = [] then (False, out @ terminated (pre @ [m]))
     else (case processMetadata a body k g (out @ terminated (pre @ [m])) of
             (c, out1) \<Rightarrow> (c, out1 @ terminated post)))"
  proof (cases post)
    case Nil
    then show ?thesis by (simp split: prod.splits)
  next
    case (Cons p ps)
    obtain c o1 where pm: "processMetadata a body k g (out @ terminated (pre @ [m])) = (c, o1)"
      by (cases "processMetadata a body k g (out @ terminated (pre @ [m]))")
    have p: "\<not> HasPrefix p ''  ''" "\<not> HasPrefix p ''metadata:''"
      and ps: "\<forall>l\<in>set ps. \<not> HasPrefix l ''metadata:''"
      using hd post Cons by simp_all
    have "processManifest_loop a k g (p # ps) True body False False
            (out @ terminated (pre @ [m])) =
          processManifest_loop a k g (ps @ []) False body True c (o1 @ p @ nl)"
      using p pm by (simp add: WriteString_def)
    also have "\<dots> = processManifest_loop a k g [] False body True c
                      ((o1 @ p @ nl) @ terminated ps)"
      using ps by (rule processManifest_loop_outside)
    finally show ?thesis using Cons pm by simp
  qed
  finally show ?thesis .
qed

lemma processManifest_block:
  assumes "singleMetadataBlock pre m body post"
    and "processManifest_header (pre @ m # body @ post) [] [] = (kind, groupVersion)"
  shows "processManifest a (pre @ m # body @ post) out =
    (if body = [] \<and> post = [] then (False, out @ terminated (pre @ [m]))
     else (case processMetadata a body kind groupVersion [] of
             (c, out1) \<Rightarrow> (c, out @ terminated (pre @ [m]) @ out1 @ terminated post)))"
proof -
  have "processMetadata a body kind groupVersion ((out @ terminated (pre @ [m])) @ []) =
        (case processMetadata a body kind groupVersion [] of
           (c, out1) \<Rightarrow> (c, (out @ terminated (pre @ [m])) @ out1))"
    by (rule processMetadata_prepend)
  then show ?thesis
    using processManifest_loop_block [OF assms(1), of a kind groupVersion out] assms(2)
    by (simp add: processManifest_def split: prod.splits)
qed

section \<open>Documents without a metadata block\<close>

text \<open>
  C10. A document with no line that begins with \<open>metadata:\<close> is written line by line,
  each line followed by a line feed and nothing else, and the change flag is false: no
  annotations line and no entry is added to it.
\<close>

theorem processManifest_no_metadata:
  assumes "\<forall>l\<in>set ls. \<not> HasPrefix l ''metadata:''"
  shows "processManifest a ls out = (False, out @ terminated ls)"
proof -
  obtain k g where "processManifest_header ls [] [] = (k, g)"
    by (cases "processManifest_header ls [] []")
  moreover have "processManifest_loop a k g (ls @ []) False [] False False out =
                 processManifest_loop a k g [] False [] False False (out @ terminated ls)"
    using assms by (rule processManifest_loop_outside)
  ultimately show ?thesis by (simp add: processManifest_def)
qed

theorem processManifest_no_metadata_witness:
  "list_all (\<lambda>l. \<not> HasPrefix l ''metadata:'') [''apiVersion: v1'', ''kind: List'', ''items: []''] \<and>
   processManifest exampleAnnotator [''apiVersion: v1'', ''kind: List'', ''items: []''] [] =
     (False, terminated [''apiVersion: v1'', ''kind: List'', ''items: []''])"
proof
  show h: "list_all (\<lambda>l. \<not> HasPrefix l ''metadata:'')
             [''apiVersion: v1'', ''kind: List'', ''items: []'']"
    by code_simp
  then have "\<forall>l\<in>set [''apiVersion: v1'', ''kind: List'', ''items: []'']. \<not> HasPrefix l ''metadata:''"
    by (simp only: list_all_iff)
  then show "processManifest exampleAnnotator [''apiVersion: v1'', ''kind: List'', ''items: []''] [] =
     (False, terminated [''apiVersion: v1'', ''kind: List'', ''items: []''])"
    using processManifest_no_metadata [of _ exampleAnnotator "[]"] by simp
qed

section \<open>The order of the entries\<close>

lemma set_sink: "set (sink x ys) = insert x (set ys)"
  by (induction ys) auto

lemma mset_sink: "mset (sink x ys) = add_mset x (mset ys)"
  by (induction ys) simp_all

lemma sorted_sink:
  "sorted (rev (map key ys)) \<Longrightarrow> sorted (rev (map key (sink x ys)))"
proof (induction ys)
  case Nil
  then show ?case by simp
next
  case (Cons y ys)
  from Cons.prems have ys: "sorted (rev (map key ys))" and le: "\<forall>z\<in>set ys. key z \<le> key y"
    by (auto simp: sorted_append)
  show ?case
  proof (cases "Less x y")
    case True
    then have "key x \<le> key y" by (simp add: Less_def)
    then show ?thesis
      using True le Cons.IH [OF ys] by (auto simp: sorted_append set_sink)
  next
    case False
    then have "key y \<le> key x" by (simp add: Less_def)
    then show ?thesis
      using False le Cons.prems by (fastforce simp: sorted_append)
  qed
qed

lemma mset_insertionSort: "mset (insertionSort s xs) = mset s + mset xs"
  by (induction xs arbitrary: s) (simp_all add: mset_sink)

lemma sorted_insertionSort:
  "sorted (rev (map key s)) \<Longrightarrow> sorted (map key (insertionSort s xs))"
proof (induction xs arbitrary: s)
  case Nil
  then show ?case by (simp add: rev_map)
next
  case (Cons x xs)
  from Cons.prems have "sorted (rev (map key (sink x s)))" by (rule sorted_sink)
  then show ?case using Cons.IH by simp
qed

lemma mset_Sort: "mset (Sort as) = mset as"
  by (simp add: Sort_def mset_insertionSort)

lemma sorted_Sort: "sorted (map key (Sort as))"
  by (simp add: Sort_def sorted_insertionSort)

text \<open>The lines of the entries are the lines of the block when every line is owned.\<close>

lemma parseAnnotations_loop_lines:
  assumes "\<forall>l\<in>set ls. HasPrefix l ''      '' \<or> \<not> length (SplitN2 l) < 2"
    and "cur = None \<Longrightarrow> (case ls of [] \<Rightarrow> True | l # _ \<Rightarrow> \<not> HasPrefix l ''      '')"
  shows "concat (map lines (parseAnnotations_loop ls cur result)) =
         concat (map lines result) @ (case cur of None \<Rightarrow> [] | Some c \<Rightarrow> lines c) @ ls"
  using assms
proof (induction ls arbitrary: cur result)
  case Nil
  then show ?case by (simp split: option.splits)
next
  case (Cons line rest)
  have rest: "\<forall>l\<in>set rest. HasPrefix l ''      '' \<or> \<not> length (SplitN2 l) < 2"
    using Cons.prems(1) by simp
  show ?case
  proof (cases "HasPrefix line ''      ''")
    case True
    then obtain c where c: "cur = Some c"
      using Cons.prems(2) by (cases cur) simp_all
    show ?thesis
      using True c Cons.IH [OF rest, of "Some (c\<lparr>lines := lines c @ [line]\<rparr>)" result]
      by simp
  next
    case False
    then have colon: "\<not> length (SplitN2 line) < 2"
      using Cons.prems(1) by simp
    show ?thesis
      using False colon
        Cons.IH [OF rest, of "Some \<lparr>key = TrimSpace (SplitN2 line ! 0), lines = [line]\<rparr>"
          "case cur of None \<Rightarrow> result | Some c \<Rightarrow> result @ [c]"]
      by (simp add: Let_def split: option.splits)
  qed
qed

lemma parseAnnotations_lines:
  "entryLines ls \<Longrightarrow> concat (map lines (parseAnnotations ls)) = ls"
  using parseAnnotations_loop_lines [of ls None "[]"]
  by (simp add: entryLines_def parseAnnotations_def list_all_iff)

text \<open>
  C4, as the source has it. When the merge reports a change, what it writes are the
  entries of the block and the new entry, each with all its lines, in an order sorted by
  key; \<open>Less\<close> compares keys only, so entries with equal keys are not ordered by their
  values. When it reports no change, it writes the entries in their original order,
  which is the block byte for byte when every line of the block belongs to an entry.
\<close>

theorem processAnnotations_order:
  assumes "processAnnotations a ls out = (changed, out1)"
  shows "(changed \<longrightarrow>
            (\<exists>es. out1 = Write es out \<and> sorted (map key es) \<and>
                  mset es = add_mset (newAnnotation (Annotation a) (Value a))
                              (mset (parseAnnotations ls)))) \<and>
         (\<not> changed \<longrightarrow>
            out1 = Write (parseAnnotations ls) out \<and>
            (entryLines ls \<longrightarrow> out1 = out @ terminated ls))"
proof (cases changed)
  case True
  let ?es = "Sort (Add (parseAnnotations ls) (Annotation a) (Value a))"
  have "out1 = Write ?es out"
    using assms True by (simp add: processAnnotations_def Let_def split: if_splits)
  moreover have "sorted (map key ?es)"
    by (rule sorted_Sort)
  moreover have "mset ?es = add_mset (newAnnotation (Annotation a) (Value a))
                              (mset (parseAnnotations ls))"
    by (simp add: mset_Sort Add_def)
  ultimately show ?thesis using True by blast
next
  case False
  have w: "out1 = Write (parseAnnotations ls) out"
    using assms False by (simp add: processAnnotations_def Let_def split: if_splits)
  moreover have "out1 = out @ terminated ls" if "entryLines ls"
    using w parseAnnotations_lines [OF that] by (simp add: Write_eq)
  ultimately show ?thesis using False by blast
qed

theorem processAnnotations_order_witness:
  "processAnnotations exampleAnnotator [''    zeta: 1'', ''    alpha: 2''] [] =
     (True, terminated [''    alpha: 2'', ''    team: platform'', ''    zeta: 1'']) \<and>
   (\<exists>es. terminated [''    alpha: 2'', ''    team: platform'', ''    zeta: 1''] = Write es [] \<and>
         sorted (map key es) \<and>
         mset es = add_mset (newAnnotation ''team'' ''platform'')
                     (mset (parseAnnotations [''    zeta: 1'', ''    alpha: 2'']))) \<and>
   processAnnotations exampleAnnotator [''    team: |'', ''      core'', ''    alpha: 2''] [] =
     (False, terminated [''    team: |'', ''      core'', ''    alpha: 2'']) \<and>
   entryLines [''    team: |'', ''      core'', ''    alpha: 2'']"
proof (intro conjI)
  show h1: "processAnnotations exampleAnnotator [''    zeta: 1'', ''    alpha: 2''] [] =
     (True, terminated [''    alpha: 2'', ''    team: platform'', ''    zeta: 1''])"
    by code_simp
  from processAnnotations_order [OF h1]
  show "\<exists>es. terminated [''    alpha: 2'', ''    team: platform'', ''    zeta: 1''] = Write es [] \<and>
         sorted (map key es) \<and>
         mset es = add_mset (newAnnotation ''team'' ''platform'')
                     (mset (parseAnnotations [''    zeta: 1'', ''    alpha: 2'']))"
    by (simp add: exampleAnnotator_def)
  show h2: "entryLines [''    team: |'', ''      core'', ''    alpha: 2'']"
    by code_simp
  have "fst (processAnnotations exampleAnnotator
               [''    team: |'', ''      core'', ''    alpha: 2''] []) = False"
    by code_simp
  then obtain o1 where h3:
    "processAnnotations exampleAnnotator [''    team: |'', ''      core'', ''    alpha: 2''] []
       = (False, o1)"
    by (cases "processAnnotations exampleAnnotator
                 [''    team: |'', ''      core'', ''    alpha: 2''] []") simp
  from processAnnotations_order [OF h3] h2
  have "o1 = [] @ terminated [''    team: |'', ''      core'', ''    alpha: 2'']"
    by blast
  with h3
  show "processAnnotations exampleAnnotator [''    team: |'', ''      core'', ''    alpha: 2''] [] =
     (False, terminated [''    team: |'', ''      core'', ''    alpha: 2''])"
    by simp
qed

text \<open>
  The claim as written fails on the ties: two entries with the key \<open>a\<close> stay in their
  order, the value \<open>2\<close> before the value \<open>1\<close>.
\<close>

theorem processAnnotations_order_counterexample:
  "processAnnotations exampleAnnotator [''    a: 2'', ''    a: 1''] [] =
     (True, terminated [''    a: 2'', ''    a: 1'', ''    team: platform'']) \<and>
   '' 1'' < '' 2''"
  by code_simp

section \<open>What the merge writes\<close>

lemma set_Sort: "set (Sort as) = set as"
  using mset_Sort [of as] by (rule mset_eq_setD)

lemma parseAnnotations_loop_subset:
  "set (concat (map lines (parseAnnotations_loop ls cur result))) \<subseteq>
   set ls \<union> (case cur of None \<Rightarrow> {} | Some c \<Rightarrow> set (lines c)) \<union> set (concat (map lines result))"
proof (induction ls arbitrary: cur result)
  case Nil
  then show ?case by (auto split: option.splits)
next
  case (Cons line rest)
  show ?case
  proof (cases "HasPrefix line ''      ''")
    case True
    show ?thesis
    proof (cases cur)
      case None
      then show ?thesis using True Cons.IH [of None result] by auto
    next
      case (Some c)
      then show ?thesis
        using True Cons.IH [of "Some (c\<lparr>lines := lines c @ [line]\<rparr>)" result] by auto
    qed
  next
    case False
    show ?thesis
    proof (cases "length (SplitN2 line) < 2")
      case True
      then show ?thesis using False Cons.IH [of cur result] by (auto simp: Let_def)
    next
      case colon: False
      show ?thesis
        using False colon
          Cons.IH [of "Some \<lparr>key = TrimSpace (SplitN2 line ! 0), lines = [line]\<rparr>"
            "case cur of None \<Rightarrow> result | Some c \<Rightarrow> result @ [c]"]
        by (auto simp: Let_def split: option.splits)
    qed
  qed
qed

lemma parseAnnotations_subset:
  "set (concat (map lines (parseAnnotations ls))) \<subseteq> set ls"
  using parseAnnotations_loop_subset [of ls None "[]"] by (simp add: parseAnnotations_def)

lemma fst_processAnnotations:
  "fst (processAnnotations a ls out) =
    (\<not> Includes (parseAnnotations ls) (Annotation a) \<and>
     \<not> Includes (parseAnnotations ls) (SkipAnnotation a))"
  by (simp add: processAnnotations_def Let_def)

lemma processAnnotations_written:
  "\<exists>E. snd (processAnnotations a ls []) = terminated E \<and> set E \<subseteq> insert (newEntry a) (set ls)"
proof (cases "fst (processAnnotations a ls [])")
  case True
  let ?es = "Sort (Add (parseAnnotations ls) (Annotation a) (Value a))"
  have "snd (processAnnotations a ls []) = terminated (concat (map lines ?es))"
    using True by (simp add: processAnnotations_def Let_def Write_eq split: if_splits)
  moreover have "set (concat (map lines ?es)) \<subseteq> insert (newEntry a) (set ls)"
    using parseAnnotations_subset [of ls]
    by (auto simp: set_Sort Add_def newAnnotation_def)
  ultimately show ?thesis by blast
next
  case False
  have "snd (processAnnotations a ls []) = terminated (concat (map lines (parseAnnotations ls)))"
    using False by (auto simp: processAnnotations_def Let_def Write_eq)
  moreover have "set (concat (map lines (parseAnnotations ls))) \<subseteq> insert (newEntry a) (set ls)"
    using parseAnnotations_subset [of ls] by auto
  ultimately show ?thesis by blast
qed

lemma sublist_terminated:
  assumes "x \<in> set es"
  shows "sublist (terminated (lines x)) (terminated (concat (map lines es)))"
proof -
  from assms obtain xs ys where "es = xs @ x # ys" by (auto dest: split_list)
  then have "terminated (concat (map lines es)) =
             terminated (concat (map lines xs)) @ terminated (lines x) @
             terminated (concat (map lines ys))"
    by simp
  then show ?thesis unfolding sublist_def by blast
qed

lemma processAnnotations_carries:
  assumes "fst (processAnnotations a ls [])"
  shows "sublist (newEntry a @ nl) (snd (processAnnotations a ls []))"
proof -
  let ?es = "Sort (Add (parseAnnotations ls) (Annotation a) (Value a))"
  have out: "snd (processAnnotations a ls []) = terminated (concat (map lines ?es))"
    using assms by (simp add: processAnnotations_def Let_def Write_eq split: if_splits)
  have "newAnnotation (Annotation a) (Value a) \<in> set ?es"
    by (simp add: set_Sort Add_def)
  from sublist_terminated [OF this] show ?thesis
    by (simp add: out newAnnotation_def)
qed

section \<open>The scan of the metadata block\<close>

lemma processMetadata_skip:
  assumes "processMetadata_names ls [] [] = (name, namespace)"
    and "skipProcessing a kind groupVersion name namespace"
  shows "processMetadata a ls kind groupVersion out = (False, out @ terminated ls)"
  using assms by (simp add: processMetadata_def WriteLines_eq)

lemma processManifest_filtered:
  assumes "singleMetadataBlock pre m body post"
    and "processManifest_header (pre @ m # body @ post) [] [] = (kind, groupVersion)"
    and "processMetadata_names body [] [] = (name, namespace)"
    and "skipProcessing a kind groupVersion name namespace"
  shows "processManifest a (pre @ m # body @ post) out =
    (False, out @ terminated (pre @ m # body @ post))"
  using processManifest_block [OF assms(1,2), of a out]
    processMetadata_skip [OF assms(3,4), of "[]"]
  by simp

lemma processMetadata_loop_no_annotations:
  "\<forall>l\<in>set ls. \<not> HasPrefix l ''  annotations:'' \<Longrightarrow>
   processMetadata_loop a ls al False ap ch out = (al, ap, ch, out @ terminated ls)"
  by (induction ls arbitrary: out) (simp_all add: WriteString_def)

lemma processAnnotations_Nil:
  "processAnnotations a [] out = (True, out @ ''    '' @ Annotation a @ '': '' @ Value a @ nl)"
  by (simp add: processAnnotations_def parseAnnotations_def Sort_def Add_def
        newAnnotation_def WriteString_def)

lemma processMetadata_synthesized:
  assumes "processMetadata_names ls [] [] = (name, namespace)"
    and "\<not> skipProcessing a kind groupVersion name namespace"
    and "\<forall>l\<in>set ls. \<not> HasPrefix l ''  annotations:''"
  shows "processMetadata a ls kind groupVersion out =
    (True, out @ terminated ls @ ''  annotations:'' @ nl @
             ''    '' @ Annotation a @ '': '' @ Value a @ nl)"
  using assms(1,2)
  by (simp add: processMetadata_def processMetadata_loop_no_annotations [OF assms(3)]
        processAnnotations_Nil WriteString_def)

lemma processMetadata_loop_outside:
  "\<forall>l\<in>set ls. \<not> HasPrefix l ''  annotations:'' \<Longrightarrow>
   processMetadata_loop a (ls @ rest) al False ap ch out =
   processMetadata_loop a rest al False ap ch (out @ terminated ls)"
  by (induction ls arbitrary: out) (simp_all add: WriteString_def)

lemma processMetadata_loop_inside:
  "\<forall>l\<in>set blk. HasPrefix l ''    '' \<Longrightarrow>
   processMetadata_loop a (blk @ rest) al True ap ch out =
   processMetadata_loop a rest (al @ blk) True ap ch out"
  by (induction blk arbitrary: al) simp_all

lemma processMetadata_loop_block:
  assumes "singleAnnotationsBlock apre ann blk apost"
  shows "processMetadata_loop a (apre @ ann # blk @ apost) [] False False False out =
    (if apost = [] then (blk, False, False, out @ terminated (apre @ [ann]))
     else (case processAnnotations a blk (out @ terminated (apre @ [ann])) of
             (c, out1) \<Rightarrow> (blk, True, c, out1 @ terminated apost)))"
proof -
  from assms have apre: "\<forall>l\<in>set apre. \<not> HasPrefix l ''  annotations:''"
    and ann: "HasPrefix ann ''  annotations:''"
    and blk: "\<forall>l\<in>set blk. HasPrefix l ''    ''"
    and apost: "\<forall>l\<in>set apost. \<not> HasPrefix l ''  annotations:''"
    and hd: "case apost of [] \<Rightarrow> True | p # _ \<Rightarrow> \<not> HasPrefix p ''    ''"
    by (simp_all add: singleAnnotationsBlock_def list_all_iff)
  have "processMetadata_loop a (apre @ ann # blk @ apost) [] False False False out =
        processMetadata_loop a (ann # blk @ apost) [] False False False (out @ terminated apre)"
    using apre by (rule processMetadata_loop_outside)
  also have "\<dots> = processMetadata_loop a (blk @ apost) [] True False False
                    (out @ terminated (apre @ [ann]))"
    using ann by (simp add: WriteString_def)
  also have "\<dots> = processMetadata_loop a apost blk True False False
                    (out @ terminated (apre @ [ann]))"
    using processMetadata_loop_inside [OF blk, of a apost "[]"] by simp
  also have "\<dots> =
    (if apost = [] then (blk, False, False, out @ terminated (apre @ [ann]))
     else (case processAnnotations a blk (out @ terminated (apre @ [ann])) of
             (c, out1) \<Rightarrow> (blk, True, c, out1 @ terminated apost)))"
  proof (cases apost)
    case Nil
    then show ?thesis by simp
  next
    case (Cons p ps)
    obtain c o1 where pa: "processAnnotations a blk (out @ terminated (apre @ [ann])) = (c, o1)"
      by (cases "processAnnotations a blk (out @ terminated (apre @ [ann]))")
    have p: "\<not> HasPrefix p ''    ''" "\<not> HasPrefix p ''  annotations:''"
      and ps: "\<forall>l\<in>set ps. \<not> HasPrefix l ''  annotations:''"
      using hd apost Cons by simp_all
    have "processMetadata_loop a (p # ps) blk True False False (out @ terminated (apre @ [ann])) =
          processMetadata_loop a (ps @ []) blk False True c (o1 @ p @ nl)"
      using p pa by (simp add: WriteString_def)
    also have "\<dots> = processMetadata_loop a [] blk False True c ((o1 @ p @ nl) @ terminated ps)"
      using ps by (rule processMetadata_loop_outside)
    finally show ?thesis using Cons pa by simp
  qed
  finally show ?thesis .
qed

lemma processMetadata_block:
  assumes "singleAnnotationsBlock apre ann blk apost" and "blk \<noteq> []"
    and "processMetadata_names (apre @ ann # blk @ apost) [] [] = (name, namespace)"
    and "\<not> skipProcessing a kind groupVersion name namespace"
  shows "processMetadata a (apre @ ann # blk @ apost) kind groupVersion out =
    (case processAnnotations a blk [] of
       (c, out1) \<Rightarrow> (c, out @ terminated (apre @ [ann]) @ out1 @ terminated apost))"
proof -
  have pp: "processAnnotations a blk ((out @ terminated (apre @ [ann])) @ []) =
        (case processAnnotations a blk [] of
           (c, out1) \<Rightarrow> (c, (out @ terminated (apre @ [ann])) @ out1))"
    by (rule processAnnotations_prepend)
  show ?thesis
    using assms(2,3,4) pp
    by (simp add: processMetadata_def processMetadata_loop_block [OF assms(1)]
          split: prod.splits)
qed

lemma skipProcessing_matchesFilters:
  "skipProcessing a kind groupVersion name namespace =
   (\<not> matchesFilters a kind groupVersion name namespace)"
  by (auto simp: skipProcessing_def matchesFilters_def)




lemma processManifest_synthesized:
  assumes "singleMetadataBlock pre m body post"
    and "body \<noteq> [] \<or> post \<noteq> []"
    and "processManifest_header (pre @ m # body @ post) [] [] = (kind, groupVersion)"
    and "processMetadata_names body [] [] = (name, namespace)"
    and "matchesFilters a kind groupVersion name namespace"
    and "\<forall>l\<in>set body. \<not> HasPrefix l ''  annotations:''"
  shows "processManifest a (pre @ m # body @ post) out =
    (True, out @ terminated (pre @ m # body) @ ''  annotations:'' @ nl @
             newEntry a @ nl @ terminated post)"
proof -
  have "\<not> skipProcessing a kind groupVersion name namespace"
    using assms(5) by (simp add: skipProcessing_matchesFilters)
  from processMetadata_synthesized [OF assms(4) this assms(6), of "[]"]
    processManifest_block [OF assms(1,3), of a out] assms(2)
  show ?thesis by auto
qed

lemma processManifest_merged:
  assumes "singleMetadataBlock pre m body post"
    and "processManifest_header (pre @ m # body @ post) [] [] = (kind, groupVersion)"
    and "processMetadata_names body [] [] = (name, namespace)"
    and "matchesFilters a kind groupVersion name namespace"
    and "body = apre @ ann # blk @ apost"
    and "singleAnnotationsBlock apre ann blk apost" and "blk \<noteq> []"
  shows "processManifest a (pre @ m # body @ post) out =
    (fst (processAnnotations a blk []),
     out @ terminated (pre @ m # apre @ [ann]) @ snd (processAnnotations a blk []) @
       terminated (apost @ post))"
proof -
  have skip: "\<not> skipProcessing a kind groupVersion name namespace"
    using assms(4) by (simp add: skipProcessing_matchesFilters)
  have "processMetadata a body kind groupVersion [] =
        (case processAnnotations a blk [] of
           (c, out1) \<Rightarrow> (c, [] @ terminated (apre @ [ann]) @ out1 @ terminated apost))"
    using processMetadata_block [OF assms(6,7) assms(3) [unfolded assms(5)] skip]
    by (simp only: assms(5))
  moreover have "body \<noteq> []" using assms(5) by simp
  ultimately show ?thesis
    using processManifest_block [OF assms(1,2), of a out] assms(5)
    by (simp split: prod.splits)
qed

lemma processManifest_flag:
  assumes "singleMetadataBlock pre m body post"
    and "body \<noteq> [] \<or> post \<noteq> []"
    and "processManifest_header (pre @ m # body @ post) [] [] = (kind, groupVersion)"
    and "processMetadata_names body [] [] = (name, namespace)"
    and "(blk = [] \<and> (\<forall>l\<in>set body. \<not> HasPrefix l ''  annotations:'')) \<or>
         (blk \<noteq> [] \<and> body = apre @ ann # blk @ apost \<and>
          singleAnnotationsBlock apre ann blk apost)"
  shows "fst (processManifest a (pre @ m # body @ post) out) =
    (matchesFilters a kind groupVersion name namespace \<and>
     \<not> Includes (parseAnnotations blk) (Annotation a) \<and>
     \<not> Includes (parseAnnotations blk) (SkipAnnotation a))"
proof (cases "matchesFilters a kind groupVersion name namespace")
  case False
  then have "skipProcessing a kind groupVersion name namespace"
    by (simp add: skipProcessing_matchesFilters)
  from processManifest_filtered [OF assms(1,3,4) this, of out] False
  show ?thesis by simp
next
  case True
  from assms(5) show ?thesis
  proof
    assume h: "blk = [] \<and> (\<forall>l\<in>set body. \<not> HasPrefix l ''  annotations:'')"
    then have "processManifest a (pre @ m # body @ post) out =
      (True, out @ terminated (pre @ m # body) @ ''  annotations:'' @ nl @
               newEntry a @ nl @ terminated post)"
      using processManifest_synthesized [OF assms(1,2,3,4) True] by blast
    then show ?thesis using True h by (simp add: parseAnnotations_def)
  next
    assume h: "blk \<noteq> [] \<and> body = apre @ ann # blk @ apost \<and>
               singleAnnotationsBlock apre ann blk apost"
    then have "processManifest a (pre @ m # body @ post) out =
      (fst (processAnnotations a blk []),
       out @ terminated (pre @ m # apre @ [ann]) @ snd (processAnnotations a blk []) @
         terminated (apost @ post))"
      using processManifest_merged [OF assms(1,3,4) True] by blast
    then show ?thesis using True by (simp add: fst_processAnnotations)
  qed
qed

lemma processManifest_carries:
  assumes "singleMetadataBlock pre m body post"
    and "body \<noteq> [] \<or> post \<noteq> []"
    and "processManifest_header (pre @ m # body @ post) [] [] = (kind, groupVersion)"
    and "processMetadata_names body [] [] = (name, namespace)"
    and "(blk = [] \<and> (\<forall>l\<in>set body. \<not> HasPrefix l ''  annotations:'')) \<or>
         (blk \<noteq> [] \<and> body = apre @ ann # blk @ apost \<and>
          singleAnnotationsBlock apre ann blk apost)"
    and "matchesFilters a kind groupVersion name namespace"
    and "\<not> Includes (parseAnnotations blk) (Annotation a)"
    and "\<not> Includes (parseAnnotations blk) (SkipAnnotation a)"
  shows "sublist (newEntry a @ nl) (snd (processManifest a (pre @ m # body @ post) out))"
  using assms(5)
proof
  assume h: "blk = [] \<and> (\<forall>l\<in>set body. \<not> HasPrefix l ''  annotations:'')"
  then have "snd (processManifest a (pre @ m # body @ post) out) =
      (out @ terminated (pre @ m # body) @ ''  annotations:'' @ nl) @
        (newEntry a @ nl) @ terminated post"
    using processManifest_synthesized [OF assms(1,2,3,4,6)] by simp
  then show ?thesis unfolding sublist_def by blast
next
  assume h: "blk \<noteq> [] \<and> body = apre @ ann # blk @ apost \<and>
             singleAnnotationsBlock apre ann blk apost"
  then have eq: "snd (processManifest a (pre @ m # body @ post) out) =
      (out @ terminated (pre @ m # apre @ [ann])) @ snd (processAnnotations a blk []) @
        terminated (apost @ post)"
    using processManifest_merged [OF assms(1,3,4,6)] by simp
  have "fst (processAnnotations a blk [])"
    using assms(7,8) by (simp add: fst_processAnnotations)
  then have "sublist (newEntry a @ nl) (snd (processAnnotations a blk []))"
    by (rule processAnnotations_carries)
  then obtain p q where "snd (processAnnotations a blk []) = p @ (newEntry a @ nl) @ q"
    unfolding sublist_def by blast
  then have "snd (processManifest a (pre @ m # body @ post) out) =
      ((out @ terminated (pre @ m # apre @ [ann])) @ p) @ (newEntry a @ nl) @
        (q @ terminated (apost @ post))"
    using eq by simp
  then show ?thesis unfolding sublist_def by blast
qed




section \<open>The filters\<close>

text \<open>
  C3, as the source has it, for a document with one metadata block. If a filter that is
  not empty differs from the value read from the document (kind and apiVersion from the
  unindented lines, name and namespace from the lines of the metadata block), the
  document is written unchanged and the change flag is false. If the metadata block has
  no annotations line, or one annotations line followed by its entries, the change flag
  is true exactly when every filter that is not empty equals the value read and the
  entries of the annotation block have neither the key nor the skip key; the buffer then
  holds the line of the new entry.
\<close>

theorem filter_correctness:
  assumes "singleMetadataBlock pre m body post"
    and "processManifest_header (pre @ m # body @ post) [] [] = (kind, groupVersion)"
    and "processMetadata_names body [] [] = (name, namespace)"
  shows "(\<not> matchesFilters a kind groupVersion name namespace \<longrightarrow>
            processManifest a (pre @ m # body @ post) out =
              (False, out @ terminated (pre @ m # body @ post))) \<and>
         ((body \<noteq> [] \<or> post \<noteq> []) \<and>
          ((blk = [] \<and> (\<forall>l\<in>set body. \<not> HasPrefix l ''  annotations:'')) \<or>
           (blk \<noteq> [] \<and> body = apre @ ann # blk @ apost \<and>
            singleAnnotationsBlock apre ann blk apost)) \<longrightarrow>
            fst (processManifest a (pre @ m # body @ post) out) =
              (matchesFilters a kind groupVersion name namespace \<and>
               \<not> Includes (parseAnnotations blk) (Annotation a) \<and>
               \<not> Includes (parseAnnotations blk) (SkipAnnotation a)) \<and>
            (fst (processManifest a (pre @ m # body @ post) out) \<longrightarrow>
               sublist (newEntry a @ nl) (snd (processManifest a (pre @ m # body @ post) out))))"
proof (intro conjI impI)
  assume "\<not> matchesFilters a kind groupVersion name namespace"
  then have "skipProcessing a kind groupVersion name namespace"
    by (simp add: skipProcessing_matchesFilters)
  with assms show "processManifest a (pre @ m # body @ post) out =
                     (False, out @ terminated (pre @ m # body @ post))"
    by (rule processManifest_filtered)
next
  assume h: "(body \<noteq> [] \<or> post \<noteq> []) \<and>
     ((blk = [] \<and> (\<forall>l\<in>set body. \<not> HasPrefix l ''  annotations:'')) \<or>
      (blk \<noteq> [] \<and> body = apre @ ann # blk @ apost \<and> singleAnnotationsBlock apre ann blk apost))"
  then have ne: "body \<noteq> [] \<or> post \<noteq> []"
    and shape: "(blk = [] \<and> (\<forall>l\<in>set body. \<not> HasPrefix l ''  annotations:'')) \<or>
      (blk \<noteq> [] \<and> body = apre @ ann # blk @ apost \<and> singleAnnotationsBlock apre ann blk apost)"
    by blast+
  show flag: "fst (processManifest a (pre @ m # body @ post) out) =
     (matchesFilters a kind groupVersion name namespace \<and>
      \<not> Includes (parseAnnotations blk) (Annotation a) \<and>
      \<not> Includes (parseAnnotations blk) (SkipAnnotation a))"
    using assms(1) ne assms(2,3) shape by (rule processManifest_flag)
  assume "fst (processManifest a (pre @ m # body @ post) out)"
  with flag have "matchesFilters a kind groupVersion name namespace"
    and "\<not> Includes (parseAnnotations blk) (Annotation a)"
    and "\<not> Includes (parseAnnotations blk) (SkipAnnotation a)"
    by simp_all
  with assms(1) ne assms(2,3) shape
  show "sublist (newEntry a @ nl) (snd (processManifest a (pre @ m # body @ post) out))"
    by (rule processManifest_carries)
qed

theorem filter_correctness_witness:
  "\<not> matchesFilters (exampleAnnotator\<lparr>Kind := ''Service''\<rparr>) ''Pod'' ''v1'' ''web'' [] \<and>
   processManifest (exampleAnnotator\<lparr>Kind := ''Service''\<rparr>) podDocument [] =
     (False, terminated podDocument) \<and>
   matchesFilters (exampleAnnotator\<lparr>Name := ''web''\<rparr>) ''Pod'' [] ''web'' ''prod'' \<and>
   \<not> Includes (parseAnnotations [''    app: web'']) ''team'' \<and>
   fst (processManifest (exampleAnnotator\<lparr>Name := ''web''\<rparr>) namespacedDocument []) \<and>
   sublist (''    team: platform'' @ nl)
     (snd (processManifest (exampleAnnotator\<lparr>Name := ''web''\<rparr>) namespacedDocument [])) \<and>
   matchesFilters (exampleAnnotator\<lparr>Kind := ''Pod'', Name := ''web''\<rparr>) ''Pod'' [] ''web'' [] \<and>
   Includes (parseAnnotations [''    team: platform'']) ''team'' \<and>
   \<not> fst (processManifest (exampleAnnotator\<lparr>Kind := ''Pod'', Name := ''web''\<rparr>)
           annotatedDocument [])"
proof -
  let ?a1 = "exampleAnnotator\<lparr>Kind := ''Service''\<rparr>"
  let ?a2 = "exampleAnnotator\<lparr>Name := ''web''\<rparr>"
  let ?a3 = "exampleAnnotator\<lparr>Kind := ''Pod'', Name := ''web''\<rparr>"
  have b1: "singleMetadataBlock [''apiVersion: v1'', ''kind: Pod''] ''metadata:''
              [''  name: web''] [''spec: {}'']"
    by code_simp
  have d1: "[''apiVersion: v1'', ''kind: Pod''] @ ''metadata:'' # [''  name: web''] @ [''spec: {}'']
              = podDocument"
    by (simp add: podDocument_def)
  have h1: "processManifest_header podDocument [] [] = (''Pod'', ''v1'')"
    by code_simp
  have n1: "processMetadata_names [''  name: web''] [] [] = (''web'', [])"
    by code_simp
  have m1: "\<not> matchesFilters ?a1 ''Pod'' ''v1'' ''web'' []"
    by code_simp
  from filter_correctness [OF b1, unfolded d1, OF h1 n1, of ?a1 "[]"] m1
  have r1: "processManifest ?a1 podDocument [] = (False, terminated podDocument)"
    by simp
  have b2: "singleMetadataBlock [''kind: Pod''] ''metadata:''
              [''  name: web'', ''  namespace: prod'', ''  annotations:'', ''    app: web'']
              [''spec: {}'']"
    by code_simp
  have d2: "[''kind: Pod''] @ ''metadata:'' #
              [''  name: web'', ''  namespace: prod'', ''  annotations:'', ''    app: web''] @
              [''spec: {}''] = namespacedDocument"
    by (simp add: namespacedDocument_def)
  have h2: "processManifest_header namespacedDocument [] [] = (''Pod'', [])"
    by code_simp
  have n2: "processMetadata_names
              [''  name: web'', ''  namespace: prod'', ''  annotations:'', ''    app: web''] [] []
            = (''web'', ''prod'')"
    by code_simp
  have s2: "singleAnnotationsBlock [''  name: web'', ''  namespace: prod''] ''  annotations:''
              [''    app: web''] []"
    by code_simp
  have m2: "matchesFilters ?a2 ''Pod'' [] ''web'' ''prod''"
    by code_simp
  have k2: "\<not> Includes (parseAnnotations [''    app: web'']) ''team''"
    and k2': "\<not> Includes (parseAnnotations [''    app: web'']) []"
    by code_simp+
  have shape2: "([''  name: web'', ''  namespace: prod'', ''  annotations:'', ''    app: web'']
                  \<noteq> [] \<or> [''spec: {}''] \<noteq> []) \<and>
     (([''    app: web''] = [] \<and>
       (\<forall>l\<in>set [''  name: web'', ''  namespace: prod'', ''  annotations:'', ''    app: web''].
           \<not> HasPrefix l ''  annotations:'')) \<or>
      ([''    app: web''] \<noteq> [] \<and>
       [''  name: web'', ''  namespace: prod'', ''  annotations:'', ''    app: web''] =
         [''  name: web'', ''  namespace: prod''] @ ''  annotations:'' # [''    app: web''] @ [] \<and>
       singleAnnotationsBlock [''  name: web'', ''  namespace: prod''] ''  annotations:''
         [''    app: web''] []))"
    using s2 by simp
  note i2 = filter_correctness [OF b2, unfolded d2, OF h2 n2, of ?a2 "[]", THEN conjunct2,
      THEN mp, OF shape2]
  have r2: "fst (processManifest ?a2 namespacedDocument [])"
    using i2 [THEN conjunct1] m2 k2 k2' by (simp add: exampleAnnotator_def)
  have c2: "sublist (''    team: platform'' @ nl) (snd (processManifest ?a2 namespacedDocument []))"
    using i2 [THEN conjunct2] r2 by (simp add: exampleAnnotator_def)
  have b3: "singleMetadataBlock [''kind: Pod''] ''metadata:''
              [''  name: web'', ''  annotations:'', ''    team: platform''] []"
    by code_simp
  have d3: "[''kind: Pod''] @ ''metadata:'' #
              [''  name: web'', ''  annotations:'', ''    team: platform''] @ [] = annotatedDocument"
    by (simp add: annotatedDocument_def)
  have h3: "processManifest_header annotatedDocument [] [] = (''Pod'', [])"
    by code_simp
  have n3: "processMetadata_names [''  name: web'', ''  annotations:'', ''    team: platform''] [] []
            = (''web'', [])"
    by code_simp
  have s3: "singleAnnotationsBlock [''  name: web''] ''  annotations:'' [''    team: platform''] []"
    by code_simp
  have m3: "matchesFilters ?a3 ''Pod'' [] ''web'' []"
    by code_simp
  have k3: "Includes (parseAnnotations [''    team: platform'']) ''team''"
    by code_simp
  have shape3: "([''  name: web'', ''  annotations:'', ''    team: platform''] \<noteq> [] \<or> [] \<noteq> []) \<and>
     (([''    team: platform''] = [] \<and>
       (\<forall>l\<in>set [''  name: web'', ''  annotations:'', ''    team: platform''].
           \<not> HasPrefix l ''  annotations:'')) \<or>
      ([''    team: platform''] \<noteq> [] \<and>
       [''  name: web'', ''  annotations:'', ''    team: platform''] =
         [''  name: web''] @ ''  annotations:'' # [''    team: platform''] @ [] \<and>
       singleAnnotationsBlock [''  name: web''] ''  annotations:'' [''    team: platform''] []))"
    using s3 by simp
  have r3: "\<not> fst (processManifest ?a3 annotatedDocument [])"
    using filter_correctness [OF b3, unfolded d3, OF h3 n3, of ?a3 "[]", THEN conjunct2,
        THEN mp, OF shape3, THEN conjunct1] k3
    by (simp add: exampleAnnotator_def)
  from m1 r1 m2 k2 r2 c2 m3 k3 r3 show ?thesis by blast
qed

text \<open>
  The claim as written fails in the direction from matching to modified: the filters
  \<open>kind = Pod\<close> and \<open>name = web\<close> equal the values read from the document, and the
  document, which has the key already, is written unchanged.
\<close>

theorem filter_match_unmodified_counterexample:
  "processManifest_header annotatedDocument [] [] = (''Pod'', []) \<and>
   processMetadata_names [''  name: web'', ''  annotations:'', ''    team: platform''] [] [] =
     (''web'', []) \<and>
   Kind (exampleAnnotator\<lparr>Kind := ''Pod'', Name := ''web''\<rparr>) = ''Pod'' \<and>
   Name (exampleAnnotator\<lparr>Kind := ''Pod'', Name := ''web''\<rparr>) = ''web'' \<and>
   GroupVersion (exampleAnnotator\<lparr>Kind := ''Pod'', Name := ''web''\<rparr>) = [] \<and>
   Namespace (exampleAnnotator\<lparr>Kind := ''Pod'', Name := ''web''\<rparr>) = [] \<and>
   processManifest (exampleAnnotator\<lparr>Kind := ''Pod'', Name := ''web''\<rparr>) annotatedDocument [] =
     (False, terminated annotatedDocument)"
  by code_simp

section \<open>Synthesis of the annotations line\<close>

text \<open>
  C6, as the source has it, for a document with one metadata block that passes the
  filters. When no line of the block begins with \<open>  annotations:\<close>, the line
  \<open>  annotations:\<close> is written right after the lines of the block, followed by the entry
  \<open>    key: value\<close> with the value as given, without quotes, and the change flag is true.
  When the block has one annotations line followed by its entries, no annotations line is
  synthesized: between the lines up to the annotations line of the document and the
  lines after its entries, the buffer holds what the merge writes, lines indented by
  four spaces, and the change flag is the flag of the merge.
\<close>

theorem annotations_synthesized:
  assumes "singleMetadataBlock pre m body post"
    and "body \<noteq> [] \<or> post \<noteq> []"
    and "processManifest_header (pre @ m # body @ post) [] [] = (kind, groupVersion)"
    and "processMetadata_names body [] [] = (name, namespace)"
    and "matchesFilters a kind groupVersion name namespace"
  shows "((\<forall>l\<in>set body. \<not> HasPrefix l ''  annotations:'') \<longrightarrow>
            processManifest a (pre @ m # body @ post) out =
              (True, out @ terminated (pre @ m # body) @ ''  annotations:'' @ nl @
                       newEntry a @ nl @ terminated post)) \<and>
         (blk \<noteq> [] \<and> body = apre @ ann # blk @ apost \<and>
          singleAnnotationsBlock apre ann blk apost \<longrightarrow>
            processManifest a (pre @ m # body @ post) out =
              (fst (processAnnotations a blk []),
               out @ terminated (pre @ m # apre @ [ann]) @ snd (processAnnotations a blk []) @
                 terminated (apost @ post)) \<and>
            (\<exists>E. snd (processAnnotations a blk []) = terminated E \<and>
                 (\<forall>l\<in>set E. HasPrefix l ''    '')))"
proof (intro conjI impI)
  assume "\<forall>l\<in>set body. \<not> HasPrefix l ''  annotations:''"
  with assms show "processManifest a (pre @ m # body @ post) out =
      (True, out @ terminated (pre @ m # body) @ ''  annotations:'' @ nl @
               newEntry a @ nl @ terminated post)"
    by (rule processManifest_synthesized)
next
  assume h: "blk \<noteq> [] \<and> body = apre @ ann # blk @ apost \<and>
             singleAnnotationsBlock apre ann blk apost"
  then show "processManifest a (pre @ m # body @ post) out =
      (fst (processAnnotations a blk []),
       out @ terminated (pre @ m # apre @ [ann]) @ snd (processAnnotations a blk []) @
         terminated (apost @ post))"
    using processManifest_merged [OF assms(1,3,4,5)] by blast
  from h have four: "\<forall>l\<in>set blk. HasPrefix l ''    ''"
    by (simp add: singleAnnotationsBlock_def list_all_iff)
  obtain E where E: "snd (processAnnotations a blk []) = terminated E"
    and sub: "set E \<subseteq> insert (newEntry a) (set blk)"
    using processAnnotations_written [of a blk] by blast
  have "HasPrefix (newEntry a) ''    ''"
    by (simp add: HasPrefix_def)
  with four sub have "\<forall>l\<in>set E. HasPrefix l ''    ''" by blast
  with E show "\<exists>E. snd (processAnnotations a blk []) = terminated E \<and>
                   (\<forall>l\<in>set E. HasPrefix l ''    '')"
    by blast
qed

theorem annotations_synthesized_witness:
  "matchesFilters exampleAnnotator ''Pod'' ''v1'' ''web'' [] \<and>
   list_all (\<lambda>l. \<not> HasPrefix l ''  annotations:'') [''  name: web''] \<and>
   processManifest exampleAnnotator podDocument [] =
     (True, terminated [''apiVersion: v1'', ''kind: Pod'', ''metadata:'', ''  name: web'',
                        ''  annotations:'', ''    team: platform'', ''spec: {}'']) \<and>
   matchesFilters exampleAnnotator ''Pod'' [] ''web'' ''prod'' \<and>
   singleAnnotationsBlock [''  name: web'', ''  namespace: prod''] ''  annotations:''
     [''    app: web''] [] \<and>
   processManifest exampleAnnotator namespacedDocument [] =
     (True, terminated [''kind: Pod'', ''metadata:'', ''  name: web'', ''  namespace: prod'',
                        ''  annotations:'', ''    app: web'', ''    team: platform'',
                        ''spec: {}''])"
proof (intro conjI)
  have b1: "singleMetadataBlock [''apiVersion: v1'', ''kind: Pod''] ''metadata:''
              [''  name: web''] [''spec: {}'']"
    by code_simp
  have e1: "[''  name: web''] \<noteq> [] \<or> [''spec: {}''] \<noteq> []"
    by simp
  have d1: "[''apiVersion: v1'', ''kind: Pod''] @ ''metadata:'' # [''  name: web''] @ [''spec: {}'']
              = podDocument"
    by (simp add: podDocument_def)
  have h1: "processManifest_header podDocument [] [] = (''Pod'', ''v1'')"
    by code_simp
  have n1: "processMetadata_names [''  name: web''] [] [] = (''web'', [])"
    by code_simp
  show m1: "matchesFilters exampleAnnotator ''Pod'' ''v1'' ''web'' []"
    by code_simp
  show l1: "list_all (\<lambda>l. \<not> HasPrefix l ''  annotations:'') [''  name: web'']"
    by code_simp
  then have l1': "\<forall>l\<in>set [''  name: web'']. \<not> HasPrefix l ''  annotations:''"
    by (simp only: list_all_iff)
  from annotations_synthesized [OF b1 e1, unfolded d1, OF h1 n1 m1, of "[]", THEN conjunct1,
      THEN mp, OF l1']
  show "processManifest exampleAnnotator podDocument [] =
     (True, terminated [''apiVersion: v1'', ''kind: Pod'', ''metadata:'', ''  name: web'',
                        ''  annotations:'', ''    team: platform'', ''spec: {}''])"
    by (simp add: exampleAnnotator_def)
  have b2: "singleMetadataBlock [''kind: Pod''] ''metadata:''
              [''  name: web'', ''  namespace: prod'', ''  annotations:'', ''    app: web'']
              [''spec: {}'']"
    by code_simp
  have e2: "[''  name: web'', ''  namespace: prod'', ''  annotations:'', ''    app: web''] \<noteq> [] \<or>
            [''spec: {}''] \<noteq> []"
    by simp
  have d2: "[''kind: Pod''] @ ''metadata:'' #
              [''  name: web'', ''  namespace: prod'', ''  annotations:'', ''    app: web''] @
              [''spec: {}''] = namespacedDocument"
    by (simp add: namespacedDocument_def)
  have h2: "processManifest_header namespacedDocument [] [] = (''Pod'', [])"
    by code_simp
  have n2: "processMetadata_names
              [''  name: web'', ''  namespace: prod'', ''  annotations:'', ''    app: web''] [] []
            = (''web'', ''prod'')"
    by code_simp
  show m2: "matchesFilters exampleAnnotator ''Pod'' [] ''web'' ''prod''"
    by code_simp
  show s2: "singleAnnotationsBlock [''  name: web'', ''  namespace: prod''] ''  annotations:''
              [''    app: web''] []"
    by code_simp
  then have shape2: "[''    app: web''] \<noteq> [] \<and>
       [''  name: web'', ''  namespace: prod'', ''  annotations:'', ''    app: web''] =
         [''  name: web'', ''  namespace: prod''] @ ''  annotations:'' # [''    app: web''] @ [] \<and>
       singleAnnotationsBlock [''  name: web'', ''  namespace: prod''] ''  annotations:''
         [''    app: web''] []"
    by simp
  have merge: "processAnnotations exampleAnnotator [''    app: web''] [] =
                 (True, terminated [''    app: web'', ''    team: platform''])"
    by code_simp
  from annotations_synthesized [OF b2 e2, unfolded d2, OF h2 n2 m2, of "[]", THEN conjunct2,
      THEN mp, OF shape2, THEN conjunct1]
  show "processManifest exampleAnnotator namespacedDocument [] =
     (True, terminated [''kind: Pod'', ''metadata:'', ''  name: web'', ''  namespace: prod'',
                        ''  annotations:'', ''    app: web'', ''    team: platform'',
                        ''spec: {}''])"
    by (simp add: merge)
qed

text \<open>
  The claim as written fails on the quotes: for \<open>metadata:\<close>, \<open>  name: foo\<close> and the
  annotation \<open>team\<close> with value \<open>platform\<close> the entry written is \<open>    team: platform\<close>.
\<close>

theorem annotations_synthesized_counterexample:
  "processManifest exampleAnnotator [''metadata:'', ''  name: foo''] [] =
     (True, terminated [''metadata:'', ''  name: foo'', ''  annotations:'',
                        ''    team: platform'']) \<and>
   snd (processManifest exampleAnnotator [''metadata:'', ''  name: foo''] []) \<noteq>
     terminated [''metadata:'', ''  name: foo'', ''  annotations:'',
                 ''    team: '' @ [CHR 0x22] @ ''platform'' @ [CHR 0x22]]"
  by code_simp

section \<open>Several documents in one file\<close>










section \<open>Where the code departs from its description\<close>

text \<open>
  C1. \<open>Run\<close> decides whether to write by the value of the last call of
  \<open>processManifest\<close> alone. With the filter \<open>name = a\<close> and two documents named \<open>a\<close> and
  \<open>b\<close>, the first document is changed and the buffer holds the change, the flag of the
  last document is false, and the file keeps its content.
\<close>

theorem Run_change_before_last_document_lost:
  "fst (processManifest (exampleAnnotator\<lparr>Name := ''a''\<rparr>) [''metadata:'', ''  name: a''] []) \<and>
   Run_output (exampleAnnotator\<lparr>Name := ''a''\<rparr>)
     [''metadata:'', ''  name: a'', ''---'', ''metadata:'', ''  name: b''] =
     (False, terminated [''metadata:'', ''  name: a'', ''  annotations:'',
                         ''    team: platform'', ''---'', ''metadata:'', ''  name: b'']) \<and>
   contentOf (snd (Run (exampleAnnotator\<lparr>Name := ''a''\<rparr>)
     (singleFile (terminated [''metadata:'', ''  name: a'', ''---'', ''metadata:'',
                              ''  name: b''])))) =
     Some (terminated [''metadata:'', ''  name: a'', ''---'', ''metadata:'', ''  name: b''])"
  by code_simp

text \<open>
  C2. A metadata block that ends with an \<open>  annotations:\<close> line without entries: the
  first run writes a second \<open>  annotations:\<close> line before the new entry, and the second
  run, with the same arguments, changes the file again.
\<close>

theorem Run_twice_differs:
  "contentOf (snd (Run exampleAnnotator
     (singleFile (terminated [''metadata:'', ''  name: foo'', ''  annotations:''])))) =
     Some (terminated [''metadata:'', ''  name: foo'', ''  annotations:'', ''  annotations:'',
                       ''    team: platform'']) \<and>
   contentOf (snd (Run exampleAnnotator (snd (Run exampleAnnotator
     (singleFile (terminated [''metadata:'', ''  name: foo'', ''  annotations:''])))))) =
     Some (terminated [''metadata:'', ''  name: foo'', ''  annotations:'',
                       ''    team: platform'', ''  annotations:''])"
  by code_simp

text \<open>
  C7. When \<open>metadata:\<close> is the last line of the document, no metadata line has been
  collected, the test \<open>len(metadataLines) > 0\<close> after the loop fails and
  \<open>processMetadata\<close> is not called: the document comes out as it is and the file is not
  written. When a line that is not indented follows \<open>metadata:\<close>, the call inside the
  loop runs \<open>processMetadata\<close> with no lines and the annotations are synthesized.
\<close>

theorem metadata_last_line_not_processed:
  "processManifest exampleAnnotator [''kind: Pod'', ''metadata:''] [] =
     (False, terminated [''kind: Pod'', ''metadata:'']) \<and>
   contentOf (snd (Run exampleAnnotator (singleFile (terminated [''kind: Pod'', ''metadata:''])))) =
     Some (terminated [''kind: Pod'', ''metadata:'']) \<and>
   processManifest exampleAnnotator [''metadata:'', ''kind: Pod''] [] =
     (True, terminated [''metadata:'', ''  annotations:'', ''    team: platform'',
                        ''kind: Pod''])"
  by code_simp

text \<open>The same for every document whose only \<open>metadata:\<close> line is its last line.\<close>

lemma processManifest_metadata_last:
  assumes "\<forall>l\<in>set pre. \<not> HasPrefix l ''metadata:''" and "HasPrefix m ''metadata:''"
  shows "processManifest a (pre @ [m]) out = (False, out @ terminated (pre @ [m]))"
proof -
  obtain k g where h: "processManifest_header (pre @ m # [] @ []) [] [] = (k, g)"
    by (cases "processManifest_header (pre @ m # [] @ []) [] []")
  have "singleMetadataBlock pre m [] []"
    using assms by (simp add: singleMetadataBlock_def list_all_iff)
  from processManifest_block [OF this h, of a out] show ?thesis by simp
qed

text \<open>
  C9. A line of the annotation block that has no colon and is indented by fewer than six
  spaces starts no entry, and \<open>parseAnnotations\<close> attaches it to no entry either: it is
  not written back, whether the block changes or not.
\<close>

theorem unparsable_line_not_written:
  "processAnnotations exampleAnnotator [''    # owner'', ''    app: web''] [] =
     (True, terminated [''    app: web'', ''    team: platform'']) \<and>
   processAnnotations exampleAnnotator [''    # owner'', ''    team: platform''] [] =
     (False, terminated [''    team: platform'']) \<and>
   contentOf (snd (Run exampleAnnotator
     (singleFile (terminated [''metadata:'', ''  annotations:'', ''    # owner'',
                              ''    app: web''])))) =
     Some (terminated [''metadata:'', ''  annotations:'', ''    app: web'',
                       ''    team: platform''])"
  by code_simp

text \<open>
  C5. With the skip key in the block the merge reports no change, and writes the
  entries only: a line of the block that belongs to no entry is not written, and the
  document is written without it when a later document makes \<open>Run\<close> write the file.
\<close>

theorem skip_key_block_not_written_unchanged:
  "Includes (parseAnnotations [''    # owner'', ''    skip: true'']) ''skip'' \<and>
   processAnnotations (exampleAnnotator\<lparr>SkipAnnotation := ''skip''\<rparr>)
     [''    # owner'', ''    skip: true''] [] =
     (False, terminated [''    skip: true'']) \<and>
   contentOf (snd (Run (exampleAnnotator\<lparr>SkipAnnotation := ''skip''\<rparr>)
     (singleFile (terminated [''metadata:'', ''  annotations:'', ''    # owner'',
                              ''    skip: true'', ''---'', ''metadata:'', ''  name: b''])))) =
     Some (terminated [''metadata:'', ''  annotations:'', ''    skip: true'', ''---'',
                       ''metadata:'', ''  name: b'', ''  annotations:'',
                       ''    team: platform''])"
  by code_simp

text \<open>
  What holds of the skip key: the merge reports no change and writes the entries in
  their order, which is the block itself when every line belongs to an entry.
\<close>

lemma skip_key_entries_written:
  assumes "Includes (parseAnnotations ls) (SkipAnnotation a)"
  shows "processAnnotations a ls out = (False, Write (parseAnnotations ls) out)"
    and "entryLines ls \<Longrightarrow> processAnnotations a ls out = (False, out @ terminated ls)"
proof -
  show w: "processAnnotations a ls out = (False, Write (parseAnnotations ls) out)"
    using assms by (simp add: processAnnotations_def)
  show "processAnnotations a ls out = (False, out @ terminated ls)" if "entryLines ls"
    using w parseAnnotations_lines [OF that] by (simp add: Write_eq)
qed

section \<open>The other revisions on the same inputs\<close>

text \<open>
  The revision that replaces values writes a line it cannot split as it is, and the
  revision that sorts lines writes the block unchanged when it has the skip key and
  orders equal keys by the text after the colon.
\<close>

lemma reconcile_revision_keeps_line:
  "processAnnotations_reconcile quote exampleAnnotator [''    # owner'', ''    app: web''] [] =
     (True, terminated [''    # owner'', ''    app: web'', ''    team: '' @ quote ''platform''])"
proof -
  have "TrimSpace ''    app'' = ''app''"
    by code_simp
  then show ?thesis
    by (simp add: processAnnotations_reconcile_def exampleAnnotator_def SplitN2_def
          WriteString_def Let_def)
qed

lemma lines_revision_skip_key:
  assumes "includesAnnotation ls (SkipAnnotation a)"
  shows "processAnnotations_lines quote a ls out = Some (False, out @ terminated ls)"
  using assms by (simp add: processAnnotations_lines_def WriteLines_eq)

lemma lines_revision_ties:
  "processAnnotations_lines quote exampleAnnotator [''    a: 2'', ''    a: 1''] [] =
     Some (True, terminated [''    a: 1'', ''    a: 2'', ''    team: '' @ quote ''platform''])"
proof -
  have "TrimSpace ''    a'' = ''a''"
    by code_simp
  then show ?thesis
    by (simp add: processAnnotations_lines_def exampleAnnotator_def SplitN2_def
          sortAnnotations_def Less_lines_def WriteLines_eq Let_def)
qed

end
